theory Spec2Isabelle
  imports Main "HOL-Library.AList" "HOL-Library.Log_Nat"
begin

section \<open>The connection hub of exws\<close>

text \<open>
  The repository holds two variants of the same program: \<^verbatim>\<open>main.go\<close>, where a connection is
  registered by a message on the \<^verbatim>\<open>register\<close> channel, and a second file in which the
  connection handler first reads a client identifier (UUID) and then stores the client in the
  registry itself. Definitions of the second variant carry the suffix \<open>_uuid\<close>.

  A \<^verbatim>\<open>*websocket.Conn\<close> is identified by its handle. The registry \<^verbatim>\<open>manager.clients\<close> is a Go map;
  it is an association list here, so that the absence of duplicate keys is a property to be
  proved and not one of the type. \<^verbatim>\<open>m[k] = v\<close> is \<open>AList.update\<close> (overwrite or add),
  \<^verbatim>\<open>delete(m, k)\<close> is \<open>AList.delete\<close>, \<^verbatim>\<open>m[k]\<close> with the comma-ok form is \<open>map_of\<close>.
\<close>

type_synonym conn = nat

record Client =
  Conn :: conn
  UUID :: string

text \<open>The lines written with \<^verbatim>\<open>log.Printf\<close>, one constructor for each format string.\<close>

datatype logline =
    NewClientConnected nat
  | ClientDisconnected nat
  | ClientWithUUIDDisconnected string
  | WriteError
  | WriteErrorToClient string
  | UpgradeError
  | ErrorReadingUUID
  | ClientConnectedWithUUID string

text \<open>
  What the program does to the outside is kept in a trace: every call of \<^verbatim>\<open>conn.WriteJSON\<close>
  with its payload and whether it returned an error, every call of \<^verbatim>\<open>conn.Close\<close> made by
  the dispatcher (\<open>Close\<close>), every deferred \<^verbatim>\<open>conn.Close\<close> that runs when a connection handler
  returns (\<open>DeferredClose\<close>), every log line, and every completed send on one of the three
  channels of the manager.
\<close>

datatype channel = register | unregister | broadcast

datatype 'a event =
    WriteJSON conn 'a bool
  | Close conn
  | DeferredClose conn
  | Log logline
  | Sent channel

text \<open>
  The state: the fields \<^verbatim>\<open>mutex\<close> (\<open>True\<close> when held) and \<^verbatim>\<open>clients\<close> of \<^verbatim>\<open>ClientManager\<close>, the
  trace, the number of handles \<^verbatim>\<open>upgrader.Upgrade\<close> has returned so far (each call returns a new
  one), the connections whose handler goroutine sits in its read loop, and whether the
  dispatcher goroutine is blocked for ever. The three channels are unbuffered and hold no
  state: a send is a rendezvous with the dispatcher.
\<close>

record ('v, 'a) world =
  mutex :: bool
  clients :: "(conn \<times> 'v) list"
  trace :: "'a event list"
  next_conn :: conn
  reading :: "conn list"
  halted :: bool

definition init :: "('v, 'a) world" where
  "init = \<lparr>mutex = False, clients = [], trace = [], next_conn = 0, reading = [], halted = False\<rparr>"

definition emit :: "'a event \<Rightarrow> ('v, 'a) world \<Rightarrow> ('v, 'a) world" where
  "emit e w = w\<lparr>trace := trace w @ [e]\<rparr>"

text \<open>
  \<^verbatim>\<open>sync.Mutex\<close> is not reentrant. In this sequential model a critical section runs to its end
  before anything else happens, so a mutex found held by \<^verbatim>\<open>Lock\<close> is one that was never
  released, and the caller blocks for ever. \<^verbatim>\<open>Unlock\<close> of a free mutex is a fatal error of the
  Go runtime. The third failure is that of the producer: \<^verbatim>\<open>decimal.NewFromFloat\<close> panics on an
  infinity or a NaN.
\<close>

datatype error = Deadlock | UnlockOfUnlockedMutex | NewFromFloatPanic

definition Lock :: "('v, 'a) world \<Rightarrow> error + ('v, 'a) world" where
  "Lock w = (if mutex w then Inl Deadlock else Inr (w\<lparr>mutex := True\<rparr>))"

definition Unlock :: "('v, 'a) world \<Rightarrow> error + ('v, 'a) world" where
  "Unlock w = (if mutex w then Inr (w\<lparr>mutex := False\<rparr>) else Inl UnlockOfUnlockedMutex)"

definition and_then :: "error + 's \<Rightarrow> ('s \<Rightarrow> error + 't) \<Rightarrow> error + 't" where
  "and_then r f = (case r of Inl e \<Rightarrow> Inl e | Inr s \<Rightarrow> f s)"

subsection \<open>The broadcast pass\<close>

text \<open>
  \<^verbatim>\<open>for conn, client := range manager.clients { err := conn.WriteJSON(asset); if err != nil
  { log; delete(manager.clients, conn); conn.Close() } }\<close>

  Go visits the entries of a map in an unspecified order, and an entry removed before it is
  reached is not produced. The loop is a recursion over the keys in the order \<open>ks\<close> of the
  visit; \<open>werr conn\<close> tells whether \<^verbatim>\<open>WriteJSON\<close> on \<open>conn\<close> returns an error in this pass;
  \<open>wlog\<close> is the log line of the variant.
\<close>

fun broadcast_range ::
  "('v \<Rightarrow> logline) \<Rightarrow> 'a \<Rightarrow> (conn \<Rightarrow> bool) \<Rightarrow> conn list \<Rightarrow> ('v, 'a) world \<Rightarrow> ('v, 'a) world" where
  "broadcast_range wlog asset werr [] w = w"
| "broadcast_range wlog asset werr (conn # ks) w =
     (case map_of (clients w) conn of
        None \<Rightarrow> broadcast_range wlog asset werr ks w
      | Some client \<Rightarrow>
          (if werr conn
           then (let w1 = emit (WriteJSON conn asset True) w;
                     w2 = emit (Log (wlog client)) w1;
                     w3 = w2\<lparr>clients := AList.delete conn (clients w2)\<rparr>;
                     w4 = emit (Close conn) w3
                 in broadcast_range wlog asset werr ks w4)
           else broadcast_range wlog asset werr ks (emit (WriteJSON conn asset False) w)))"

subsection \<open>The dispatcher: \<^verbatim>\<open>ClientManager.start\<close>\<close>

text \<open>
  One message received by the \<^verbatim>\<open>select\<close> of the dispatcher loop. A \<open>Broadcast\<close> carries, beside the
  asset received on the channel, the outcome \<open>werr\<close> of \<^verbatim>\<open>WriteJSON\<close> for each connection in the
  pass that follows (\<open>True\<close>: an error is returned).
\<close>

datatype 'a msg = Register conn | Unregister conn | Broadcast 'a "conn \<Rightarrow> bool"

text \<open>
  \<^verbatim>\<open>main.go\<close>. The branch of \<^verbatim>\<open>cm.unregister\<close> locks the mutex and has no \<^verbatim>\<open>Unlock\<close>; the log line
  reads \<^verbatim>\<open>len(manager.clients)\<close>.
\<close>

fun start :: "'a msg \<Rightarrow> (bool, 'a) world \<Rightarrow> error + (bool, 'a) world" where
  "start (Register conn) w =
     and_then (Lock w) (\<lambda>w1.
     and_then (Unlock (w1\<lparr>clients := AList.update conn True (clients w1)\<rparr>)) (\<lambda>w2.
     Inr (emit (Log (NewClientConnected (length (clients w2)))) w2)))"
| "start (Unregister conn) w =
     and_then (Lock w) (\<lambda>w1.
       let w2 = (case map_of (clients w1) conn of
                   Some ok \<Rightarrow> emit (Close conn) (w1\<lparr>clients := AList.delete conn (clients w1)\<rparr>)
                 | None \<Rightarrow> w1)
       in Inr (emit (Log (ClientDisconnected (length (clients w2)))) w2))"
| "start (Broadcast asset werr) w =
     and_then (Lock w) (\<lambda>w1.
     Unlock (broadcast_range (\<lambda>ok. WriteError) asset werr (map fst (clients w1)) w1))"

text \<open>
  The variant with client identifiers. The branch of \<^verbatim>\<open>cm.register\<close> only logs; the branch of
  \<^verbatim>\<open>cm.unregister\<close> releases the mutex.
\<close>

fun start_uuid :: "'a msg \<Rightarrow> (Client, 'a) world \<Rightarrow> error + (Client, 'a) world" where
  "start_uuid (Register conn) w =
     Inr (emit (Log (NewClientConnected (length (clients w)))) w)"
| "start_uuid (Unregister conn) w =
     and_then (Lock w) (\<lambda>w1.
     and_then (Unlock (case map_of (clients w1) conn of
                         Some client \<Rightarrow>
                           (let w2 = emit (Log (ClientWithUUIDDisconnected (UUID client))) w1;
                                w3 = w2\<lparr>clients := AList.delete conn (clients w2)\<rparr>
                            in emit (Close conn) w3)
                       | None \<Rightarrow> w1)) (\<lambda>w4.
     Inr (emit (Log (ClientDisconnected (length (clients w4)))) w4)))"
| "start_uuid (Broadcast asset werr) w =
     and_then (Lock w) (\<lambda>w1.
     Unlock (broadcast_range (\<lambda>client. WriteErrorToClient (UUID client)) asset werr
               (map fst (clients w1)) w1))"

text \<open>
  A send on one of the unbuffered channels. When the dispatcher is blocked for ever the sender
  blocks for ever too (\<open>None\<close>). Otherwise the dispatcher receives the message and runs its
  branch; a branch that stops at \<^verbatim>\<open>Lock\<close> leaves the dispatcher blocked, with the state as it
  was, and the sender goes on.
\<close>

fun channel_of :: "'a msg \<Rightarrow> channel" where
  "channel_of (Register conn) = register"
| "channel_of (Unregister conn) = unregister"
| "channel_of (Broadcast asset werr) = broadcast"

definition send ::
  "('a msg \<Rightarrow> ('v, 'a) world \<Rightarrow> error + ('v, 'a) world) \<Rightarrow> 'a msg \<Rightarrow> ('v, 'a) world \<Rightarrow>
   ('v, 'a) world option" where
  "send dispatcher m w =
     (if halted w then None
      else (let w0 = emit (Sent (channel_of m)) w
            in Some (case dispatcher m w0 of Inl e \<Rightarrow> w0\<lparr>halted := True\<rparr> | Inr w' \<Rightarrow> w')))"

subsection \<open>The connection handler: \<^verbatim>\<open>handleConnections\<close>\<close>

text \<open>
  What arrives from outside: an HTTP request on \<^verbatim>\<open>/ws\<close> (whether the upgrade succeeds and, for
  the variant that reads one, the client identifier read first, \<open>None\<close> when that read fails);
  a read error seen by the read loop of a connection; a tick of the producer, that is an asset
  sent on \<^verbatim>\<open>manager.broadcast\<close>, with the write outcomes of the pass.
\<close>

datatype 'a input = Request bool "string option" | ReadError conn | Tick 'a "conn \<Rightarrow> bool"

text \<open>
  \<^verbatim>\<open>main.go\<close>: upgrade, \<^verbatim>\<open>manager.register <- conn\<close>, then the read loop. The loop has no
  \<^verbatim>\<open>break\<close>: after a read error the handler sends on \<^verbatim>\<open>manager.unregister\<close> and reads again, so
  the deferred \<^verbatim>\<open>conn.Close()\<close> is never reached.
\<close>

definition handleConnections :: "bool \<Rightarrow> (bool, 'a) world \<Rightarrow> (bool, 'a) world" where
  "handleConnections upgraded w =
     (if \<not> upgraded then emit (Log UpgradeError) w
      else let conn = next_conn w; w1 = w\<lparr>next_conn := Suc conn\<rparr>
           in (case send start (Register conn) w1 of
                 None \<Rightarrow> w1
               | Some w2 \<Rightarrow> w2\<lparr>reading := conn # reading w2\<rparr>))"

definition read_error :: "conn \<Rightarrow> (bool, 'a) world \<Rightarrow> (bool, 'a) world" where
  "read_error conn w =
     (if conn \<in> set (reading w)
      then (case send start (Unregister conn) w of
              None \<Rightarrow> w\<lparr>reading := removeAll conn (reading w)\<rparr>
            | Some w1 \<Rightarrow> w1)
      else w)"

text \<open>
  The variant with client identifiers: upgrade, \<^verbatim>\<open>conn.ReadJSON(&uuid)\<close>, return on error (the
  deferred \<^verbatim>\<open>conn.Close()\<close> runs), else store the client under the mutex and enter the read loop.
  On a read error the loop sends on \<^verbatim>\<open>manager.unregister\<close> and breaks; the handler returns and
  the deferred \<^verbatim>\<open>conn.Close()\<close> runs.
\<close>

definition handleConnections_uuid ::
  "bool \<Rightarrow> string option \<Rightarrow> (Client, 'a) world \<Rightarrow> (Client, 'a) world" where
  "handleConnections_uuid upgraded first w =
     (if \<not> upgraded then emit (Log UpgradeError) w
      else let conn = next_conn w; w1 = w\<lparr>next_conn := Suc conn\<rparr>
           in (case first of
                 None \<Rightarrow> emit (DeferredClose conn) (emit (Log ErrorReadingUUID) w1)
               | Some uuid \<Rightarrow>
                   (case and_then (Lock w1) (\<lambda>w2.
                           Unlock (w2\<lparr>clients :=
                                     AList.update conn \<lparr>Conn = conn, UUID = uuid\<rparr> (clients w2)\<rparr>)) of
                      Inl e \<Rightarrow> w1
                    | Inr w3 \<Rightarrow>
                        (let w4 = emit (Log (ClientConnectedWithUUID uuid)) w3
                         in w4\<lparr>reading := conn # reading w4\<rparr>))))"

definition read_error_uuid :: "conn \<Rightarrow> (Client, 'a) world \<Rightarrow> (Client, 'a) world" where
  "read_error_uuid conn w =
     (if conn \<in> set (reading w)
      then (let w0 = w\<lparr>reading := removeAll conn (reading w)\<rparr>
            in (case send start_uuid (Unregister conn) w0 of
                  None \<Rightarrow> w0
                | Some w1 \<Rightarrow> emit (DeferredClose conn) w1))
      else w)"

subsection \<open>Runs of the two programs\<close>

fun step :: "'a input \<Rightarrow> (bool, 'a) world \<Rightarrow> (bool, 'a) world" where
  "step (Request upgraded first) w = handleConnections upgraded w"
| "step (ReadError conn) w = read_error conn w"
| "step (Tick asset werr) w =
     (case send start (Broadcast asset werr) w of None \<Rightarrow> w | Some w1 \<Rightarrow> w1)"

fun step_uuid :: "'a input \<Rightarrow> (Client, 'a) world \<Rightarrow> (Client, 'a) world" where
  "step_uuid (Request upgraded first) w = handleConnections_uuid upgraded first w"
| "step_uuid (ReadError conn) w = read_error_uuid conn w"
| "step_uuid (Tick asset werr) w =
     (case send start_uuid (Broadcast asset werr) w of None \<Rightarrow> w | Some w1 \<Rightarrow> w1)"

fun run :: "'a input list \<Rightarrow> (bool, 'a) world \<Rightarrow> (bool, 'a) world" where
  "run [] w = w"
| "run (i # is) w = run is (step i w)"

fun run_uuid :: "'a input list \<Rightarrow> (Client, 'a) world \<Rightarrow> (Client, 'a) world" where
  "run_uuid [] w = w"
| "run_uuid (i # is) w = run_uuid is (step_uuid i w)"

subsection \<open>Reading a trace\<close>

text \<open>
  The connections written to, the payloads written, the connections closed by the dispatcher
  and the connections closed by a returning handler, in the order of the trace.
\<close>

fun attempts :: "'a event list \<Rightarrow> conn list" where
  "attempts [] = []"
| "attempts (WriteJSON c a e # es) = c # attempts es"
| "attempts (_ # es) = attempts es"

fun closed :: "'a event list \<Rightarrow> conn list" where
  "closed [] = []"
| "closed (Close c # es) = c # closed es"
| "closed (_ # es) = closed es"

fun payloads :: "'a event list \<Rightarrow> 'a list" where
  "payloads [] = []"
| "payloads (WriteJSON c a e # es) = a # payloads es"
| "payloads (_ # es) = payloads es"

fun deferred :: "'a event list \<Rightarrow> conn list" where
  "deferred [] = []"
| "deferred (DeferredClose c # es) = c # deferred es"
| "deferred (_ # es) = deferred es"


text \<open>
  The events of one pass that visits the entries \<open>es\<close> in this order, when every one of them
  is still registered on its turn.
\<close>

definition pass_events ::
  "('v \<Rightarrow> logline) \<Rightarrow> 'a \<Rightarrow> (conn \<Rightarrow> bool) \<Rightarrow> (conn \<times> 'v) list \<Rightarrow> 'a event list" where
  "pass_events wlog asset werr es =
     concat (map (\<lambda>(c, v). if werr c
                            then [WriteJSON c asset True, Log (wlog v), Close c]
                            else [WriteJSON c asset False]) es)"

subsection \<open>Invariants of a run\<close>

definition handles :: "(conn \<times> 'v) list \<Rightarrow> conn set" where
  "handles cl = fst ` set cl"

text \<open>
  The registry is consistent: no handle is entered twice, and no handle in it has been closed
  by the dispatcher.
\<close>

definition registry_ok :: "('v, 'a) world \<Rightarrow> bool" where
  "registry_ok w \<longleftrightarrow>
     distinct (map fst (clients w)) \<and>
     (\<forall>c \<in> handles (clients w). c \<notin> set (closed (trace w)))"

text \<open>The connections the dispatcher closes between the state \<open>w\<close> and the later state \<open>w'\<close>.\<close>

definition closed_between :: "('v, 'a) world \<Rightarrow> ('v, 'a) world \<Rightarrow> conn list" where
  "closed_between w w' = drop (length (closed (trace w))) (closed (trace w'))"

text \<open>
  The invariant that carries the proofs: registered and closed handles have all been handed
  out by the upgrader, the dispatcher has closed no handle twice and none that is registered,
  a handler in its read loop has not run its deferred \<^verbatim>\<open>Close\<close>, and no deferred \<^verbatim>\<open>Close\<close> has run
  twice.
\<close>

definition inv :: "('v, 'a) world \<Rightarrow> bool" where
  "inv w \<longleftrightarrow>
     distinct (map fst (clients w)) \<and>
     (\<forall>c \<in> handles (clients w). c < next_conn w \<and> c \<notin> set (closed (trace w))) \<and>
     (\<forall>c \<in> set (closed (trace w)). c < next_conn w) \<and>
     distinct (closed (trace w)) \<and>
     (\<forall>c \<in> set (reading w). c < next_conn w \<and> c \<notin> set (deferred (trace w))) \<and>
     (\<forall>c \<in> set (deferred (trace w)). c < next_conn w) \<and>
     distinct (deferred (trace w))"

definition inv_uuid :: "(Client, 'a) world \<Rightarrow> bool" where
  "inv_uuid w \<longleftrightarrow>
     inv w \<and> \<not> mutex w \<and> \<not> halted w \<and>
     (\<forall>c \<in> set (reading w). c \<in> handles (clients w) \<or> c \<in> set (closed (trace w)))"


text \<open>
  A trace without a send on \<^verbatim>\<open>manager.register\<close> and without the log line of the dispatcher's
  branch for that channel.
\<close>

definition no_register :: "'a event list \<Rightarrow> bool" where
  "no_register es \<longleftrightarrow> Sent register \<notin> set es \<and> (\<forall>n. Log (NewClientConnected n) \<notin> set es)"

section \<open>The producer: \<^verbatim>\<open>simulatePriceUpdate\<close>\<close>

subsection \<open>\<^verbatim>\<open>float64\<close>\<close>

text \<open>
  The producer computes in \<^verbatim>\<open>float64\<close>, the binary64 format of IEEE 754: 53 bits of precision,
  exponents from \<open>-1022\<close> to \<open>1023\<close>. A finite value is represented by the rational number it
  stands for (the sign of zero is not kept); \<open>NonFinite\<close> stands for the infinities and NaN.
  Every operation returns the exact result rounded to the nearest value of the format, ties
  to the even significand, each operation on its own (no fused multiply-add). An operation
  with a non-finite operand is not followed further: its result is \<open>NonFinite\<close>.
\<close>

datatype float64 = Finite rat | NonFinite

definition round_half_even :: "rat \<Rightarrow> int" where
  "round_half_even x =
     (let f = \<lfloor>x\<rfloor>; d = x - of_int f
      in if d < 1 / 2 then f else if 1 / 2 < d then f + 1 else if even f then f else f + 1)"

text \<open>The exponent \<open>e\<close> of a positive number \<open>x\<close>: \<open>2 ^ e \<le> x < 2 ^ (e + 1)\<close>.\<close>

definition ilog2 :: "rat \<Rightarrow> int" where
  "ilog2 x = (if 1 \<le> x then bitlen \<lfloor>x\<rfloor> - 1 else - bitlen (\<lceil>1 / x\<rceil> - 1))"

text \<open>
  Rounding to \<^verbatim>\<open>float64\<close>. The values of the format between \<open>2 ^ e\<close> and \<open>2 ^ (e + 1)\<close> are \<open>q\<close>
  apart, \<open>q = 2 ^ (e - 52)\<close>; below \<open>2 ^ (- 1022)\<close> the spacing stays that of \<open>e = - 1022\<close>
  (subnormal numbers). The rounded value is \<open>m * q\<close> with \<open>m\<close> at most \<open>2 ^ 53\<close>; it reaches
  \<open>2 ^ 1024\<close>, and overflows, when \<open>e\<close> is at least 1024 or when \<open>e = 1023\<close> and \<open>m = 2 ^ 53\<close>.
\<close>

definition round_to_float64 :: "rat \<Rightarrow> float64" where
  "round_to_float64 x =
     (if x = 0 then Finite 0
      else let e = max (ilog2 \<bar>x\<bar>) (- 1022);
               q = 2 powi (e - 52);
               m = round_half_even (\<bar>x\<bar> / q)
           in if 1024 \<le> e \<or> (e = 1023 \<and> m = 2 ^ 53) then NonFinite
              else Finite (sgn x * of_int m * q))"

instantiation float64 :: "{plus, minus, times, inverse}"
begin

definition plus_float64 :: "float64 \<Rightarrow> float64 \<Rightarrow> float64" where
  "a + b = (case (a, b) of (Finite x, Finite y) \<Rightarrow> round_to_float64 (x + y) | _ \<Rightarrow> NonFinite)"

definition minus_float64 :: "float64 \<Rightarrow> float64 \<Rightarrow> float64" where
  "a - b = (case (a, b) of (Finite x, Finite y) \<Rightarrow> round_to_float64 (x - y) | _ \<Rightarrow> NonFinite)"

definition times_float64 :: "float64 \<Rightarrow> float64 \<Rightarrow> float64" where
  "a * b = (case (a, b) of (Finite x, Finite y) \<Rightarrow> round_to_float64 (x * y) | _ \<Rightarrow> NonFinite)"

definition divide_float64 :: "float64 \<Rightarrow> float64 \<Rightarrow> float64" where
  "divide a b =
     (case (a, b) of
        (Finite x, Finite y) \<Rightarrow> if y = 0 then NonFinite else round_to_float64 (x / y)
      | _ \<Rightarrow> NonFinite)"

definition inverse_float64 :: "float64 \<Rightarrow> float64" where
  "inverse a =
     (case a of
        Finite y \<Rightarrow> if y = 0 then NonFinite else round_to_float64 (1 / y)
      | NonFinite \<Rightarrow> NonFinite)"

instance ..

end

text \<open>A constant of the source, converted to \<^verbatim>\<open>float64\<close>.\<close>

definition f64 :: "rat \<Rightarrow> float64" where
  "f64 x = round_to_float64 x"

text \<open>A result of \<^verbatim>\<open>rand.Float64()\<close>: a \<^verbatim>\<open>float64\<close> in the half-open interval from 0 to 1.\<close>

definition unit_interval :: "float64 \<Rightarrow> bool" where
  "unit_interval r = (case r of Finite x \<Rightarrow> 0 \<le> x \<and> x < 1 | NonFinite \<Rightarrow> False)"

text \<open>A finite \<^verbatim>\<open>float64\<close> of magnitude at most \<open>2 ^ k\<close>.\<close>

definition bounded :: "int \<Rightarrow> float64 \<Rightarrow> bool" where
  "bounded k a = (case a of Finite x \<Rightarrow> \<bar>x\<bar> \<le> 2 powi k | NonFinite \<Rightarrow> False)"

subsection \<open>The snapshot\<close>

text \<open>
  \<^verbatim>\<open>decimal.NewFromFloat\<close> belongs to a library outside the repository. The program only stores
  and sends its results and never computes with them, so a \<^verbatim>\<open>Decimal\<close> is represented by the
  value of the \<^verbatim>\<open>float64\<close> it was made from: the conversion yields the shortest decimal that
  reads back as the same \<^verbatim>\<open>float64\<close>, so two of its results are equal exactly when the
  \<^verbatim>\<open>float64\<close> values are. It panics on an infinity or a NaN.
\<close>

datatype Decimal = FromFloat rat

definition NewFromFloat :: "float64 \<Rightarrow> error + Decimal" where
  "NewFromFloat v = (case v of Finite x \<Rightarrow> Inr (FromFloat x) | NonFinite \<Rightarrow> Inl NewFromFloatPanic)"

record Asset =
  Balance :: Decimal
  Pnl :: Decimal
  Margin :: Decimal
  CanTransfer :: Decimal

text \<open>
  \<^verbatim>\<open>Asset{Balance: decimal.NewFromFloat(balance), Pnl: decimal.NewFromFloat(pnl),
  Margin: decimal.NewFromFloat(balance - pnl),
  CanTransfer: decimal.NewFromFloat(balance - pnl - lockBalance)}\<close>
\<close>

definition snapshot :: "float64 \<Rightarrow> float64 \<Rightarrow> float64 \<Rightarrow> error + Asset" where
  "snapshot balance pnl lockBalance =
     and_then (NewFromFloat balance) (\<lambda>b.
     and_then (NewFromFloat pnl) (\<lambda>p.
     and_then (NewFromFloat (balance - pnl)) (\<lambda>m.
     and_then (NewFromFloat (balance - pnl - lockBalance)) (\<lambda>t.
     Inr \<lparr>Balance = b, Pnl = p, Margin = m, CanTransfer = t\<rparr>))))"



subsection \<open>The loop\<close>

text \<open>
  The local variables of one iteration of the loop, and the asset it sends on
  \<^verbatim>\<open>manager.broadcast\<close>.
\<close>

record iteration =
  it_previousPrice :: float64
  it_newPrice :: float64
  it_pnl :: float64
  it_asset :: Asset

text \<open>
  The loop runs for ever, one iteration a second. The model runs it on the list of the
  results of \<^verbatim>\<open>rand.Float64()\<close>, one for each iteration, and returns the iterations made and
  the panic that ended the loop, if one did. \<^verbatim>\<open>previousPrice\<close> is not assigned in the loop.
\<close>

fun simulatePriceUpdate_loop ::
  "float64 \<Rightarrow> float64 \<Rightarrow> float64 \<Rightarrow> float64 \<Rightarrow> float64 list \<Rightarrow> iteration list \<times> error option" where
  "simulatePriceUpdate_loop previousPrice balance amount lockBalance [] = ([], None)"
| "simulatePriceUpdate_loop previousPrice balance amount lockBalance (r # rs) =
     (let newPrice = previousPrice * (f64 1 + (r - f64 (1 / 2)) / f64 100);
          pnl = (newPrice - previousPrice) * amount
      in (case snapshot balance pnl lockBalance of
            Inl e \<Rightarrow> ([], Some e)
          | Inr asset \<Rightarrow>
              (let (its, stopped) =
                     simulatePriceUpdate_loop previousPrice balance amount lockBalance rs
               in (\<lparr>it_previousPrice = previousPrice, it_newPrice = newPrice, it_pnl = pnl,
                    it_asset = asset\<rparr> # its, stopped))))"

definition simulatePriceUpdate :: "float64 list \<Rightarrow> iteration list \<times> error option" where
  "simulatePriceUpdate rs =
     (let previousPrice = f64 100;
          balance = f64 (268005 / 10);
          amount = f64 (888 / 10);
          lockBalance = f64 100 * amount
      in simulatePriceUpdate_loop previousPrice balance amount lockBalance rs)"

section \<open>Properties of the hub\<close>

lemma attempts_append: "attempts (xs @ ys) = attempts xs @ attempts ys"
  by (induction xs rule: attempts.induct) simp_all

lemma closed_append: "closed (xs @ ys) = closed xs @ closed ys"
  by (induction xs rule: closed.induct) simp_all

lemma payloads_append: "payloads (xs @ ys) = payloads xs @ payloads ys"
  by (induction xs rule: payloads.induct) simp_all


lemma closed_pass_events: "closed (pass_events wlog asset werr es) = filter werr (map fst es)"
  by (induction es) (auto simp: pass_events_def)


lemma pass_events_Cons:
  "pass_events wlog asset werr ((c, v) # es) =
     (if werr c then [WriteJSON c asset True, Log (wlog v), Close c] else [WriteJSON c asset False])
       @ pass_events wlog asset werr es"
  by (simp add: pass_events_def)

lemma map_of_entry: "distinct (map fst cl) \<Longrightarrow> (c, v) \<in> set cl \<Longrightarrow> map_of cl c = Some v"
  by simp

lemma broadcast_range_eq:
  "distinct (map fst (clients w)) \<Longrightarrow> distinct (map fst es) \<Longrightarrow> set es \<subseteq> set (clients w) \<Longrightarrow>
   broadcast_range wlog asset werr (map fst es) w =
     w\<lparr>clients := filter (\<lambda>(c, v). c \<notin> fst ` set es \<or> \<not> werr c) (clients w),
       trace := trace w @ pass_events wlog asset werr es\<rparr>"
proof (induction es arbitrary: w)
  case Nil
  then show ?case by (simp add: pass_events_def)
next
  case (Cons e es)
  obtain c v where e: "e = (c, v)" by (cases e)
  from Cons.prems e have look: "map_of (clients w) c = Some v"
    by (intro map_of_entry) auto
  from Cons.prems e have fresh: "c \<notin> fst ` set es" by auto
  show ?case
  proof (cases "werr c")
    case True
    let ?w4 = "w\<lparr>clients := AList.delete c (clients w),
                  trace := trace w @ [WriteJSON c asset True, Log (wlog v), Close c]\<rparr>"
    have d: "distinct (map fst (clients ?w4))"
      using Cons.prems(1) by (simp add: distinct_delete)
    have sub: "set es \<subseteq> set (clients ?w4)"
      using Cons.prems(3) fresh by (force simp: AList.delete_eq)
    have d2: "distinct (map fst es)" using Cons.prems(2) by simp
    have step: "broadcast_range wlog asset werr (map fst (e # es)) w =
                broadcast_range wlog asset werr (map fst es) ?w4"
      using look True e by (simp add: emit_def Let_def)
    have flt: "filter (\<lambda>(k, u). k \<notin> fst ` set es \<or> \<not> werr k) (AList.delete c (clients w)) =
               filter (\<lambda>(k, u). k \<notin> fst ` set (e # es) \<or> \<not> werr k) (clients w)"
      using True e by (auto simp: AList.delete_eq intro!: filter_cong)
    show ?thesis
      unfolding step Cons.IH [OF d d2 sub]
      using True e flt by (simp add: pass_events_Cons)
  next
    case False
    let ?w1 = "w\<lparr>trace := trace w @ [WriteJSON c asset False]\<rparr>"
    have d: "distinct (map fst (clients ?w1))" using Cons.prems(1) by simp
    have sub: "set es \<subseteq> set (clients ?w1)" using Cons.prems(3) by simp
    have d2: "distinct (map fst es)" using Cons.prems(2) by simp
    have step: "broadcast_range wlog asset werr (map fst (e # es)) w =
                broadcast_range wlog asset werr (map fst es) ?w1"
      using look False e by (simp add: emit_def)
    have flt: "filter (\<lambda>(k, u). k \<notin> fst ` set es \<or> \<not> werr k) (clients w) =
               filter (\<lambda>(k, u). k \<notin> fst ` set (e # es) \<or> \<not> werr k) (clients w)"
      using False e by (auto intro!: filter_cong)
    show ?thesis
      unfolding step Cons.IH [OF d d2 sub]
      using False e flt by (simp add: pass_events_Cons)
  qed
qed

lemma deferred_append: "deferred (xs @ ys) = deferred xs @ deferred ys"
  by (induction xs rule: deferred.induct) simp_all

lemma deferred_pass_events: "deferred (pass_events wlog asset werr es) = []"
  by (induction es) (auto simp: pass_events_def)

lemma map_of_eq_None_keys: "(map_of cl c = None) = (c \<notin> fst ` set cl)"
  by (simp add: map_of_eq_None_iff)

lemma start_Register:
  "start (Register c) w =
     (if mutex w then Inl Deadlock
      else Inr (w\<lparr>mutex := False, clients := AList.update c True (clients w),
                 trace := trace w @ [Log (NewClientConnected (length (AList.update c True (clients w))))]\<rparr>))"
  by (simp add: and_then_def Lock_def Unlock_def emit_def)

lemma start_Unregister:
  "start (Unregister c) w =
     (if mutex w then Inl Deadlock
      else Inr (case map_of (clients w) c of
                  Some ok \<Rightarrow>
                    w\<lparr>mutex := True, clients := AList.delete c (clients w),
                      trace := trace w @ [Close c, Log (ClientDisconnected (length (AList.delete c (clients w))))]\<rparr>
                | None \<Rightarrow>
                    w\<lparr>mutex := True,
                      trace := trace w @ [Log (ClientDisconnected (length (clients w)))]\<rparr>))"
  by (cases "map_of (clients w) c")
     (auto simp: and_then_def Lock_def emit_def Let_def)

lemma filter_all_keys:
  "filter (\<lambda>(c, v). c \<notin> fst ` set cl \<or> \<not> werr c) cl = filter (\<lambda>(c, v). \<not> werr c) cl"
  by (rule filter_cong) force+

lemma pass_all:
  "distinct (map fst (clients w)) \<Longrightarrow>
   broadcast_range wlog asset werr (map fst (clients w)) w =
     w\<lparr>clients := filter (\<lambda>(c, v). \<not> werr c) (clients w),
       trace := trace w @ pass_events wlog asset werr (clients w)\<rparr>"
  by (simp only: broadcast_range_eq [of w "clients w" wlog asset werr, OF _ _ subset_refl]
        filter_all_keys)

lemma start_Broadcast:
  "distinct (map fst (clients w)) \<Longrightarrow>
   start (Broadcast asset werr) w =
     (if mutex w then Inl Deadlock
      else Inr (w\<lparr>mutex := False, clients := filter (\<lambda>(c, v). \<not> werr c) (clients w),
                 trace := trace w @ pass_events (\<lambda>ok. WriteError) asset werr (clients w)\<rparr>))"
  using pass_all [of "w\<lparr>mutex := True\<rparr>" "\<lambda>ok. WriteError" asset werr]
  by (simp add: and_then_def Lock_def Unlock_def)

lemma start_uuid_Unregister:
  "start_uuid (Unregister c) w =
     (if mutex w then Inl Deadlock
      else Inr (case map_of (clients w) c of
                  Some client \<Rightarrow>
                    w\<lparr>mutex := False, clients := AList.delete c (clients w),
                      trace := trace w @ [Log (ClientWithUUIDDisconnected (UUID client)), Close c,
                                          Log (ClientDisconnected (length (AList.delete c (clients w))))]\<rparr>
                | None \<Rightarrow>
                    w\<lparr>mutex := False,
                      trace := trace w @ [Log (ClientDisconnected (length (clients w)))]\<rparr>))"
  by (cases "map_of (clients w) c")
     (auto simp: and_then_def Lock_def Unlock_def emit_def Let_def)

lemma start_uuid_Broadcast:
  "distinct (map fst (clients w)) \<Longrightarrow>
   start_uuid (Broadcast asset werr) w =
     (if mutex w then Inl Deadlock
      else Inr (w\<lparr>mutex := False, clients := filter (\<lambda>(c, v). \<not> werr c) (clients w),
                 trace := trace w @ pass_events (\<lambda>client. WriteErrorToClient (UUID client)) asset werr (clients w)\<rparr>))"
  using pass_all [of "w\<lparr>mutex := True\<rparr>" "\<lambda>client. WriteErrorToClient (UUID client)" asset werr]
  by (simp add: and_then_def Lock_def Unlock_def)

lemma handles_filter: "handles (filter (\<lambda>(c, v). P c) cl) = {c \<in> handles cl. P c}"
  unfolding handles_def by force

lemma handles_delete: "handles (AList.delete c cl) = handles cl - {c}"
  unfolding handles_def by (force simp: AList.delete_eq)

lemma handles_update: "handles (AList.update c v cl) = insert c (handles cl)"
  unfolding handles_def by (simp add: dom_update)

lemma handles_map_of: "(map_of cl c = None) = (c \<notin> handles cl)"
  unfolding handles_def by (simp add: map_of_eq_None_iff)

lemma map_of_Some_handles: "map_of cl c = Some v \<Longrightarrow> c \<in> handles cl"
  using handles_map_of [of cl c] by simp

lemma in_handles: "(c, v) \<in> set cl \<Longrightarrow> c \<in> handles cl"
  unfolding handles_def by force

lemma filter_werr_handles: "set (filter werr (map fst cl)) = {c \<in> handles cl. werr c}"
  unfolding handles_def by auto

lemma distinct_keys_filter: "distinct (map fst cl) \<Longrightarrow> distinct (map fst (filter P cl))"
  by (simp add: distinct_map_filter)

lemma inv_handleConnections: "inv w \<Longrightarrow> inv (handleConnections upgraded w)"
  by (auto simp: inv_def handleConnections_def send_def emit_def Let_def start_Register
        closed_append deferred_append distinct_update handles_update less_Suc_eq
        simp del: start.simps split: if_splits)

lemma inv_read_error: "inv w \<Longrightarrow> inv (read_error c w)"
  by (auto simp: inv_def read_error_def send_def emit_def Let_def start_Unregister
        closed_append deferred_append distinct_delete handles_delete
        simp del: start.simps split: if_splits option.splits dest: in_handles)

lemma inv_tick:
  "inv w \<Longrightarrow> inv (case send start (Broadcast asset werr) w of None \<Rightarrow> w | Some w1 \<Rightarrow> w1)"
  by (auto simp: inv_def send_def emit_def Let_def start_Broadcast
        closed_append deferred_append closed_pass_events deferred_pass_events
        handles_filter filter_werr_handles distinct_keys_filter distinct_map_filter
        simp del: start.simps split: if_splits dest: in_handles)

lemma inv_step: "inv w \<Longrightarrow> inv (step i w)"
  by (cases i) (simp_all add: inv_handleConnections inv_read_error inv_tick)

lemma inv_run: "inv w \<Longrightarrow> inv (run ins w)"
  by (induction ins arbitrary: w) (simp_all add: inv_step)

lemma inv_init: "inv init"
  by (simp add: inv_def init_def handles_def)

lemma inv_handleConnections_uuid:
  "inv_uuid w \<Longrightarrow> inv_uuid (handleConnections_uuid upgraded first w)"
  by (auto simp: inv_uuid_def inv_def handleConnections_uuid_def emit_def Let_def
        and_then_def Lock_def Unlock_def
        closed_append deferred_append distinct_update handles_update less_Suc_eq
        split: if_splits option.splits)

lemma inv_read_error_uuid: "inv_uuid w \<Longrightarrow> inv_uuid (read_error_uuid c w)"
  by (auto simp: inv_uuid_def inv_def read_error_uuid_def send_def emit_def Let_def
        start_uuid_Unregister closed_append deferred_append distinct_delete handles_delete
        simp del: start_uuid.simps split: if_splits option.splits dest: in_handles)

lemma inv_tick_uuid:
  "inv_uuid w \<Longrightarrow>
   inv_uuid (case send start_uuid (Broadcast asset werr) w of None \<Rightarrow> w | Some w1 \<Rightarrow> w1)"
  by (auto simp: inv_uuid_def inv_def send_def emit_def Let_def start_uuid_Broadcast
        closed_append deferred_append closed_pass_events deferred_pass_events
        handles_filter filter_werr_handles distinct_keys_filter distinct_map_filter
        handles_def [symmetric]
        simp del: start_uuid.simps split: if_splits dest: in_handles)

lemma inv_step_uuid: "inv_uuid w \<Longrightarrow> inv_uuid (step_uuid i w)"
  by (cases i) (simp_all add: inv_handleConnections_uuid inv_read_error_uuid inv_tick_uuid)

lemma inv_run_uuid: "inv_uuid w \<Longrightarrow> inv_uuid (run_uuid ins w)"
  by (induction ins arbitrary: w) (simp_all add: inv_step_uuid)

lemma inv_uuid_init: "inv_uuid init"
  by (simp add: inv_uuid_def inv_def init_def handles_def)





subsection \<open>C1: one broadcast pass\<close>










subsection \<open>C2: the registry along a run\<close>

lemma inv_registry_ok: "inv w \<Longrightarrow> registry_ok w"
  by (simp add: inv_def registry_ok_def)

lemma closed_between_handleConnections:
  "inv w \<Longrightarrow> set (closed_between w (handleConnections upgraded w)) =
     handles (clients w) - handles (clients (handleConnections upgraded w))"
  by (auto simp: closed_between_def inv_def handleConnections_def send_def emit_def Let_def
        start_Register closed_append handles_update
        simp del: start.simps split: if_splits)

lemma closed_between_read_error:
  "inv w \<Longrightarrow> set (closed_between w (read_error c w)) =
     handles (clients w) - handles (clients (read_error c w))"
  by (auto simp: closed_between_def inv_def read_error_def send_def emit_def Let_def
        start_Unregister closed_append handles_delete handles_map_of
        simp del: start.simps split: if_splits option.splits intro: in_handles)

lemma closed_between_tick:
  "inv w \<Longrightarrow>
   set (closed_between w (case send start (Broadcast asset werr) w of None \<Rightarrow> w | Some w1 \<Rightarrow> w1)) =
     handles (clients w) -
     handles (clients (case send start (Broadcast asset werr) w of None \<Rightarrow> w | Some w1 \<Rightarrow> w1))"
  by (auto simp: closed_between_def inv_def send_def emit_def Let_def start_Broadcast
        closed_append closed_pass_events handles_filter filter_werr_handles
        handles_def [symmetric]
        simp del: start.simps split: if_splits)

lemma closed_between_step:
  "inv w \<Longrightarrow> set (closed_between w (step i w)) = handles (clients w) - handles (clients (step i w))"
  by (cases i)
     (simp_all add: closed_between_handleConnections closed_between_read_error closed_between_tick)

lemma closed_between_handleConnections_uuid:
  "inv_uuid w \<Longrightarrow> set (closed_between w (handleConnections_uuid upgraded first w)) =
     handles (clients w) - handles (clients (handleConnections_uuid upgraded first w))"
  by (auto simp: closed_between_def inv_uuid_def inv_def handleConnections_uuid_def emit_def
        Let_def and_then_def Lock_def Unlock_def closed_append handles_update
        split: if_splits option.splits)

lemma closed_between_read_error_uuid:
  "inv_uuid w \<Longrightarrow> set (closed_between w (read_error_uuid c w)) =
     handles (clients w) - handles (clients (read_error_uuid c w))"
  by (auto simp: closed_between_def inv_uuid_def inv_def read_error_uuid_def send_def emit_def
        Let_def start_uuid_Unregister closed_append handles_delete handles_map_of
        simp del: start_uuid.simps split: if_splits option.splits intro: in_handles)

lemma closed_between_tick_uuid:
  "inv_uuid w \<Longrightarrow>
   set (closed_between w
          (case send start_uuid (Broadcast asset werr) w of None \<Rightarrow> w | Some w1 \<Rightarrow> w1)) =
     handles (clients w) -
     handles (clients (case send start_uuid (Broadcast asset werr) w of None \<Rightarrow> w | Some w1 \<Rightarrow> w1))"
  by (auto simp: closed_between_def inv_uuid_def inv_def send_def emit_def Let_def
        start_uuid_Broadcast closed_append closed_pass_events handles_filter filter_werr_handles
        handles_def [symmetric]
        simp del: start_uuid.simps split: if_splits)

lemma closed_between_step_uuid:
  "inv_uuid w \<Longrightarrow>
   set (closed_between w (step_uuid i w)) = handles (clients w) - handles (clients (step_uuid i w))"
  by (cases i)
     (simp_all add: closed_between_handleConnections_uuid closed_between_read_error_uuid
        closed_between_tick_uuid)

text \<open>
  C2. After every sequence of requests, read errors and ticks, in both variants, the registry
  holds no handle twice and no handle that the dispatcher has closed (on an unregistration or
  on a failed write of a broadcast pass); and in every further step the handles closed by the
  dispatcher are exactly the handles that the step removes from the registry. Each
  registration is of the handle that \<^verbatim>\<open>upgrader.Upgrade\<close> has just returned.
\<close>

theorem registry_invariant:
  "registry_ok (run ins init) \<and>
   registry_ok (run_uuid ins init) \<and>
   set (closed_between (run ins init) (step i (run ins init))) =
     handles (clients (run ins init)) - handles (clients (step i (run ins init))) \<and>
   set (closed_between (run_uuid ins init) (step_uuid i (run_uuid ins init))) =
     handles (clients (run_uuid ins init)) - handles (clients (step_uuid i (run_uuid ins init)))"
  using inv_run [OF inv_init, of ins] inv_run_uuid [OF inv_uuid_init, of ins]
  by (simp add: inv_registry_ok closed_between_step closed_between_step_uuid inv_uuid_def)


text \<open>Two connections, then a pass in which the write on connection 0 fails.\<close>

theorem registry_invariant_witness:
  "handles (clients (run [Request True (Some ''a''), Request True (Some ''b''),
                          Tick (7::nat) (\<lambda>c. c = 0)] init)) = {1} \<and>
   closed (trace (run [Request True (Some ''a''), Request True (Some ''b''),
                       Tick (7::nat) (\<lambda>c. c = 0)] init)) = [0] \<and>
   registry_ok (run [Request True (Some ''a''), Request True (Some ''b''),
                     Tick (7::nat) (\<lambda>c. c = 0)] init) \<and>
   handles (clients (run_uuid [Request True (Some ''a''), Request True (Some ''b''),
                               Tick (7::nat) (\<lambda>c. c = 0)] init)) = {1} \<and>
   closed (trace (run_uuid [Request True (Some ''a''), Request True (Some ''b''),
                            Tick (7::nat) (\<lambda>c. c = 0)] init)) = [0] \<and>
   registry_ok (run_uuid [Request True (Some ''a''), Request True (Some ''b''),
                          Tick (7::nat) (\<lambda>c. c = 0)] init)"
  using registry_invariant [of "[Request True (Some ''a''), Request True (Some ''b''),
                                 Tick (7::nat) (\<lambda>c. c = 0)]" "ReadError 1"]
  by (simp add: handleConnections_def handleConnections_uuid_def send_def emit_def Lock_def
        Unlock_def and_then_def init_def handles_def Let_def)

subsection \<open>C4: how often a connection is closed\<close>





lemma inv_uuid_inv: "inv_uuid w \<Longrightarrow> inv w"
  by (simp add: inv_uuid_def)














subsection \<open>C5: unregistration\<close>

text \<open>
  In the variant with client identifiers, unregistering a handle that is not registered
  changes nothing but the log; unregistering a registered handle removes its entry and closes
  it; and a second unregistration of the same handle leaves registry and closed connections
  as they are. The mutex is free again each time.
\<close>

lemma unregister_uuid_absent:
  "\<not> mutex w \<Longrightarrow> c \<notin> handles (clients w) \<Longrightarrow>
   start_uuid (Unregister c) w = Inr (emit (Log (ClientDisconnected (length (clients w)))) w)"
  by (cases w) (simp add: start_uuid_Unregister handles_map_of [symmetric] emit_def
                  del: start_uuid.simps)

lemma unregister_uuid_present:
  "\<not> mutex w \<Longrightarrow> map_of (clients w) c = Some client \<Longrightarrow>
   start_uuid (Unregister c) w =
     Inr (w\<lparr>clients := AList.delete c (clients w),
            trace := trace w @ [Log (ClientWithUUIDDisconnected (UUID client)), Close c,
                                Log (ClientDisconnected (length (AList.delete c (clients w))))]\<rparr>)"
  by (cases w) (simp add: start_uuid_Unregister del: start_uuid.simps)

lemma start_uuid_Unregister_fields:
  assumes "\<not> mutex w"
  shows "\<exists>w1. start_uuid (Unregister c) w = Inr w1 \<and> \<not> mutex w1 \<and>
        clients w1 = AList.delete c (clients w) \<and>
        closed (trace w1) = closed (trace w) @ (if c \<in> handles (clients w) then [c] else [])"
proof (cases "map_of (clients w) c")
  case None
  then have "c \<notin> handles (clients w)" by (simp add: handles_map_of)
  with None assms show ?thesis
    by (simp add: start_uuid_Unregister closed_append handles_def del: start_uuid.simps)
next
  case (Some client)
  then have "c \<in> handles (clients w)" by (rule map_of_Some_handles)
  with Some assms show ?thesis
    by (simp add: start_uuid_Unregister closed_append del: start_uuid.simps)
qed

lemma unregister_uuid_idempotent:
  assumes "\<not> mutex w" and "start_uuid (Unregister c) w = Inr w1"
  shows "\<exists>w2. start_uuid (Unregister c) w1 = Inr w2 \<and> clients w2 = clients w1 \<and>
              closed (trace w2) = closed (trace w1) \<and> \<not> mutex w2"
proof -
  from start_uuid_Unregister_fields [OF assms(1), of c] assms(2)
  have 1: "\<not> mutex w1" and 2: "clients w1 = AList.delete c (clients w)" by auto
  have 3: "c \<notin> handles (clients w1)" unfolding 2 by (simp add: handles_delete)
  from start_uuid_Unregister_fields [OF 1, of c] 3 show ?thesis
    by (auto simp: handles_def simp del: start_uuid.simps)
qed

text \<open>
  In \<^verbatim>\<open>main.go\<close> the branch has the same effect on the registry and closes the same connection,
  and it returns with the mutex held.
\<close>

lemma unregister_main_registry:
  assumes "\<not> mutex w"
  shows "\<exists>w1. start (Unregister c) w = Inr w1 \<and> mutex w1 \<and>
        clients w1 = AList.delete c (clients w) \<and>
        closed (trace w1) = closed (trace w) @ (if c \<in> handles (clients w) then [c] else [])"
proof (cases "map_of (clients w) c")
  case None
  then have "c \<notin> handles (clients w)" by (simp add: handles_map_of)
  with None assms show ?thesis
    by (simp add: start_Unregister closed_append handles_def del: start.simps)
next
  case (Some ok)
  then have "c \<in> handles (clients w)" by (rule map_of_Some_handles)
  with Some assms show ?thesis
    by (simp add: start_Unregister closed_append del: start.simps)
qed

text \<open>
  C5, in \<^verbatim>\<open>main.go\<close>. Unregistering a handle that is not registered leaves the registry as it
  is and closes nothing, and leaves the mutex held; unregistering the same handle again
  blocks the dispatcher in \<^verbatim>\<open>Lock\<close>. In a run: two connections, the read loop of connection 0
  reports its error twice, then a tick: the dispatcher is blocked, connection 1 is still
  registered and nothing is written to it.
\<close>

theorem unregister_twice_main_deadlock:
  "start (Unregister 0) (init :: (bool, nat) world) =
     Inr (init\<lparr>mutex := True, trace := [Log (ClientDisconnected 0)]\<rparr>) \<and>
   start (Unregister 0) (init\<lparr>mutex := True, trace := [Log (ClientDisconnected 0)]\<rparr> :: (bool, nat) world) =
     Inl Deadlock \<and>
   halted (run [Request True None, Request True None, ReadError 0, ReadError 0,
                Tick (7::nat) (\<lambda>c. False)] init) \<and>
   clients (run [Request True None, Request True None, ReadError 0, ReadError 0,
                Tick (7::nat) (\<lambda>c. False)] init) = [(1, True)] \<and>
   attempts (trace (run [Request True None, Request True None, ReadError 0, ReadError 0,
                Tick (7::nat) (\<lambda>c. False)] init)) = []"
  by (simp add: handleConnections_def read_error_def send_def emit_def Lock_def Unlock_def
        and_then_def init_def Let_def)


subsection \<open>C9: the first read of the variant with client identifiers\<close>

lemma update_fresh: "c \<notin> handles cl \<Longrightarrow> AList.update c v cl = cl @ [(c, v)]"
  unfolding handles_def by (induction cl) auto

lemma inv_next_conn_fresh: "inv w \<Longrightarrow> next_conn w \<notin> handles (clients w)"
  by (auto simp: inv_def)

lemma absent_step_uuid:
  "inv_uuid w \<Longrightarrow> c < next_conn w \<Longrightarrow> c \<notin> handles (clients w) \<Longrightarrow>
   c < next_conn (step_uuid i w) \<and> c \<notin> handles (clients (step_uuid i w))"
  by (cases i)
     (auto simp: inv_uuid_def inv_def handleConnections_uuid_def read_error_uuid_def send_def
        emit_def Let_def and_then_def Lock_def Unlock_def start_uuid_Unregister
        start_uuid_Broadcast handles_update handles_delete handles_filter
        simp del: start_uuid.simps split: if_splits option.splits)

lemma absent_run_uuid:
  "inv_uuid w \<Longrightarrow> c < next_conn w \<Longrightarrow> c \<notin> handles (clients w) \<Longrightarrow>
   c \<notin> handles (clients (run_uuid ins w))"
proof (induction ins arbitrary: w)
  case Nil
  then show ?case by simp
next
  case (Cons i ins)
  from absent_step_uuid [OF Cons.prems, of i] inv_step_uuid [OF Cons.prems(1), of i]
  show ?case by (simp add: Cons.IH)
qed

lemma first_read_fails:
  "handleConnections_uuid True None w =
     w\<lparr>trace := trace w @ [Log ErrorReadingUUID, DeferredClose (next_conn w)],
       next_conn := Suc (next_conn w)\<rparr>"
  by (simp add: handleConnections_uuid_def emit_def Let_def)

lemma first_read_succeeds:
  assumes "inv_uuid w"
  shows "handleConnections_uuid True (Some uuid) w =
     w\<lparr>clients := clients w @ [(next_conn w, \<lparr>Conn = next_conn w, UUID = uuid\<rparr>)],
       trace := trace w @ [Log (ClientConnectedWithUUID uuid)],
       next_conn := Suc (next_conn w),
       reading := next_conn w # reading w\<rparr>"
proof -
  have free: "\<not> mutex w" using assms by (simp add: inv_uuid_def)
  have upd: "AList.update (next_conn w) v (clients w) = clients w @ [(next_conn w, v)]" for v
    by (rule update_fresh [OF inv_next_conn_fresh [OF inv_uuid_inv [OF assms]]])
  show ?thesis
    by (cases w)
       (use free upd in \<open>simp add: handleConnections_uuid_def emit_def Let_def and_then_def
          Lock_def Unlock_def\<close>)
qed

text \<open>
  C9. At any point of a run of the variant with client identifiers, for the connection \<open>c\<close>
  that the next upgrade returns: when the first read fails the registry is unchanged, the
  deferred \<^verbatim>\<open>Close\<close> of \<open>c\<close> runs, and \<open>c\<close> is in the registry after no continuation of the run;
  when the first read returns \<open>uuid\<close>, the registry gains the one entry of \<open>c\<close> with that
  identifier, and \<open>c\<close> is not closed.
\<close>

theorem first_read_decides_registration:
  "(let w = run_uuid pre init; c = next_conn w;
        wf = handleConnections_uuid True None w;
        ws = handleConnections_uuid True (Some uuid) w
    in clients wf = clients w \<and>
       trace wf = trace w @ [Log ErrorReadingUUID, DeferredClose c] \<and>
       (\<forall>ins. c \<notin> handles (clients (run_uuid ins wf))) \<and>
       c \<notin> handles (clients w) \<and>
       clients ws = clients w @ [(c, \<lparr>Conn = c, UUID = uuid\<rparr>)] \<and>
       closed (trace ws) = closed (trace w) \<and> deferred (trace ws) = deferred (trace w))"
proof -
  let ?w = "run_uuid pre (init :: (Client, 'a) world)"
  have u: "inv_uuid ?w" by (rule inv_run_uuid [OF inv_uuid_init])
  have fresh: "next_conn ?w \<notin> handles (clients ?w)"
    by (rule inv_next_conn_fresh [OF inv_uuid_inv [OF u]])
  have uf: "inv_uuid (handleConnections_uuid True None ?w)"
    by (rule inv_handleConnections_uuid [OF u])
  have never: "next_conn ?w \<notin> handles (clients (run_uuid ins (handleConnections_uuid True None ?w)))"
    for ins
    by (rule absent_run_uuid [OF uf]) (use fresh in \<open>simp_all add: first_read_fails\<close>)
  show ?thesis
    unfolding Let_def
    using fresh never
    by (simp add: first_read_succeeds [OF u] closed_append deferred_append)
       (simp add: first_read_fails)
qed

subsection \<open>C10: the register channel of the variant with client identifiers\<close>

lemma no_register_append: "no_register (xs @ ys) \<longleftrightarrow> no_register xs \<and> no_register ys"
  by (auto simp: no_register_def)

lemma no_register_pass_events:
  "no_register (pass_events (\<lambda>client. WriteErrorToClient (UUID client)) asset werr es)"
  by (induction es) (auto simp: pass_events_def no_register_def)

lemma pass_events_uuid_quiet:
  "Sent register \<notin> set (pass_events (\<lambda>client. WriteErrorToClient (UUID client)) asset werr es)"
  "Log (NewClientConnected n) \<notin>
     set (pass_events (\<lambda>client. WriteErrorToClient (UUID client)) asset werr es)"
  using no_register_pass_events [of asset werr es] by (simp_all add: no_register_def)

lemma no_register_step_uuid:
  "inv_uuid w \<Longrightarrow> no_register (trace w) \<Longrightarrow> no_register (trace (step_uuid i w))"
  by (cases i)
     (auto simp: inv_uuid_def inv_def handleConnections_uuid_def read_error_uuid_def send_def
        emit_def Let_def and_then_def Lock_def Unlock_def start_uuid_Unregister
        start_uuid_Broadcast pass_events_uuid_quiet no_register_def
        simp del: start_uuid.simps split: if_splits option.splits)

lemma no_register_run_uuid:
  "inv_uuid w \<Longrightarrow> no_register (trace w) \<Longrightarrow> no_register (trace (run_uuid ins w))"
  by (induction ins arbitrary: w) (simp_all add: no_register_step_uuid inv_step_uuid)

text \<open>
  C10. In no run of the variant with client identifiers is there a send on
  \<^verbatim>\<open>manager.register\<close>, and the log line of the dispatcher's branch for that channel is never
  written.
\<close>

theorem register_channel_unused:
  "Sent register \<notin> set (trace (run_uuid ins init)) \<and>
   Log (NewClientConnected n) \<notin> set (trace (run_uuid ins init))"
  using no_register_run_uuid [OF inv_uuid_init, of ins]
  by (simp add: no_register_def init_def)

section \<open>Properties of the producer\<close>

subsection \<open>Rounding stays in range\<close>

lemma ilog2_lower: "0 < x \<Longrightarrow> 2 powi (ilog2 x) \<le> x"
proof (cases "1 \<le> x")
  case True
  define n where "n = \<lfloor>x\<rfloor>"
  from True have n: "0 < n" unfolding n_def by simp
  from bitlen_bounds [OF n] have "2 ^ nat (bitlen n - 1) \<le> n" by simp
  then have "rat_of_int (2 ^ nat (bitlen n - 1)) \<le> of_int n" by (simp only: of_int_le_iff)
  also have "\<dots> \<le> x" unfolding n_def by simp
  finally have "(2::rat) ^ nat (bitlen n - 1) \<le> x" by simp
  moreover have "1 \<le> bitlen n" using n by (simp add: bitlen_alt_def)
  moreover have "ilog2 x = bitlen n - 1" using True by (simp add: ilog2_def n_def)
  ultimately show ?thesis by (simp add: power_int_def)
next
  case False
  assume pos: "0 < x"
  define m where "m = \<lceil>1 / x\<rceil>"
  define k where "k = bitlen (m - 1)"
  from False pos have "1 < 1 / x" by simp
  then have m2: "2 \<le> m" unfolding m_def by linarith
  then have n: "0 < m - 1" by simp
  from bitlen_bounds [OF n] have "m - 1 < 2 ^ nat k" by (simp add: k_def)
  then have "m \<le> 2 ^ nat k" by simp
  then have "1 / x \<le> of_int (2 ^ nat k)" unfolding m_def by (simp only: ceiling_le_iff)
  then have "1 / x \<le> 2 ^ nat k" by simp
  then have "1 / 2 ^ nat k \<le> x" using pos by (simp add: field_simps)
  moreover have "ilog2 x = - k" using False by (simp add: ilog2_def k_def m_def)
  moreover have "0 \<le> k" unfolding k_def by (rule bitlen_nonneg)
  ultimately show ?thesis
    by (auto simp: power_int_def power_one_over field_simps)
qed

lemma ilog2_upper: "0 < x \<Longrightarrow> x < 2 powi (ilog2 x + 1)"
proof (cases "1 \<le> x")
  case True
  define n where "n = \<lfloor>x\<rfloor>"
  from True have n: "0 < n" unfolding n_def by simp
  have b1: "1 \<le> bitlen n" using n by (simp add: bitlen_alt_def)
  from bitlen_bounds [OF n] have "n < 2 ^ nat (bitlen n)" by simp
  then have "n + 1 \<le> 2 ^ nat (bitlen n)" by simp
  then have "rat_of_int (n + 1) \<le> of_int (2 ^ nat (bitlen n))" by (simp only: of_int_le_iff)
  moreover have "x < of_int (n + 1)" unfolding n_def by linarith
  ultimately have "x < 2 ^ nat (bitlen n)" by simp
  moreover have "ilog2 x + 1 = bitlen n" using True by (simp add: ilog2_def n_def)
  ultimately show ?thesis using b1 by (simp add: power_int_def)
next
  case False
  assume pos: "0 < x"
  define m where "m = \<lceil>1 / x\<rceil>"
  define k where "k = bitlen (m - 1)"
  from False pos have "1 < 1 / x" by simp
  then have m2: "2 \<le> m" unfolding m_def by linarith
  then have n: "0 < m - 1" by simp
  have k1: "1 \<le> k" using n by (simp add: k_def bitlen_alt_def)
  from bitlen_bounds [OF n] have "2 ^ nat (k - 1) \<le> m - 1" by (simp add: k_def)
  then have "rat_of_int (2 ^ nat (k - 1)) \<le> of_int (m - 1)" by (simp only: of_int_le_iff)
  moreover have "of_int (m - 1) < 1 / x" unfolding m_def by linarith
  ultimately have "2 ^ nat (k - 1) < 1 / x" by simp
  then have "x < 1 / 2 ^ nat (k - 1)" using pos by (simp add: field_simps)
  then have lt: "x < 1 / 2 ^ nat (k - 1)" .
  have eq: "ilog2 x + 1 = - (k - 1)" using False by (simp add: ilog2_def k_def m_def)
  have "(2::rat) powi (- (k - 1)) = 1 / 2 ^ nat (k - 1)"
    using k1 by (cases "k = 1") (simp_all add: power_int_def power_one_over)
  with lt show ?thesis unfolding eq by simp
qed

lemma round_half_even_le: "x \<le> of_int n \<Longrightarrow> round_half_even x \<le> n"
proof -
  assume a: "x \<le> of_int n"
  show ?thesis
  proof (cases "x = of_int n")
    case True
    then show ?thesis by (simp add: round_half_even_def)
  next
    case False
    with a have "x < of_int n" by simp
    then have "\<lfloor>x\<rfloor> < n" by (simp add: floor_less_iff)
    then show ?thesis by (simp add: round_half_even_def Let_def)
  qed
qed

lemma round_half_even_nonneg: "0 \<le> x \<Longrightarrow> 0 \<le> round_half_even x"
  by (simp add: round_half_even_def Let_def)


lemma ilog2_le:
  assumes "0 < x" and "x \<le> 2 powi k"
  shows "ilog2 x \<le> k"
proof -
  have "(2::rat) powi (ilog2 x) \<le> 2 powi k"
    using ilog2_lower [OF assms(1)] assms(2) by (rule order_trans)
  then show ?thesis
    using power_int_strict_increasing [of k "ilog2 x" "2::rat"] by (cases "ilog2 x \<le> k") auto
qed

lemma round_bounded:
  assumes "\<bar>x\<bar> \<le> 2 powi k" and "- 1022 \<le> k" and "k \<le> 1023"
  shows "bounded k (round_to_float64 x)"
proof (cases "x = 0")
  case True
  then show ?thesis by (simp add: round_to_float64_def bounded_def)
next
  case False
  define e where "e = max (ilog2 \<bar>x\<bar>) (- 1022)"
  define q :: rat where "q = 2 powi (e - 52)"
  define m where "m = round_half_even (\<bar>x\<bar> / q)"
  from False have pos: "0 < \<bar>x\<bar>" by simp
  have ek: "e \<le> k" unfolding e_def using ilog2_le [OF pos assms(1)] assms(2) by simp
  have qpos: "0 < q" unfolding q_def by simp
  have kq: "2 powi k / q = of_int (2 ^ nat (k - e + 52))"
  proof -
    have "2 powi k / q = (2::rat) powi (k - (e - 52))"
      unfolding q_def by (simp add: power_int_diff)
    also have "\<dots> = 2 powi (k - e + 52)"
      by (rule arg_cong [where f = "power_int 2"]) arith
    also have "\<dots> = of_int (2 ^ nat (k - e + 52))"
      using ek by (simp add: power_int_def)
    finally show ?thesis .
  qed
  have "\<bar>x\<bar> / q \<le> 2 powi k / q" using assms(1) qpos by (simp add: divide_right_mono)
  then have "\<bar>x\<bar> / q \<le> of_int (2 ^ nat (k - e + 52))" unfolding kq .
  then have mle: "m \<le> 2 ^ nat (k - e + 52)" unfolding m_def by (rule round_half_even_le)
  have m0: "0 \<le> m" unfolding m_def using qpos by (intro round_half_even_nonneg) simp
  have no_ovf: "\<not> (1024 \<le> e \<or> (e = 1023 \<and> m = 2 ^ 53))"
  proof
    assume "1024 \<le> e \<or> (e = 1023 \<and> m = 2 ^ 53)"
    then have e: "e = 1023" and m: "m = 2 ^ 53" using ek assms(3) by auto
    with ek assms(3) have "k = 1023" by simp
    with e mle have "m \<le> 2 ^ 52" by simp
    with m show False by simp
  qed
  have "of_int m * q \<le> of_int (2 ^ nat (k - e + 52)) * q"
    using mle qpos by (simp add: mult_right_mono)
  also have "\<dots> = 2 powi k" using kq [symmetric] qpos by simp
  finally have val: "rat_of_int m * q \<le> 2 powi k" .
  have "\<bar>sgn x * of_int m * q\<bar> = of_int m * q"
    using False m0 qpos by (simp add: abs_mult)
  with val have "\<bar>sgn x * of_int m * q\<bar> \<le> 2 powi k" by simp
  moreover have "round_to_float64 x = Finite (sgn x * of_int m * q)"
    using False no_ovf unfolding round_to_float64_def Let_def e_def [symmetric]
      q_def [symmetric] m_def [symmetric] by simp
  ultimately show ?thesis by (simp add: bounded_def)
qed


lemma bounded_mono: "bounded j a \<Longrightarrow> j \<le> k \<Longrightarrow> bounded k a"
  using power_int_increasing [of j k "2::rat"]
  by (cases a) (auto simp: bounded_def)

lemma bounded_Finite: "bounded k a \<Longrightarrow> \<exists>x. a = Finite x"
  by (cases a) (simp_all add: bounded_def)

lemma two_powi_Suc: "(2::rat) powi (k + 1) = 2 * 2 powi k"
  by (simp add: power_int_add)

lemma bounded_plus:
  assumes "bounded k a" and "bounded k b" and "- 1023 \<le> k" and "k \<le> 1022"
  shows "bounded (k + 1) (a + b)"
proof -
  from assms(1,2) obtain x y where a: "a = Finite x" and b: "b = Finite y"
    and x: "\<bar>x\<bar> \<le> 2 powi k" and y: "\<bar>y\<bar> \<le> 2 powi k"
    by (cases a; cases b) (auto simp: bounded_def)
  have "\<bar>x + y\<bar> \<le> 2 powi (k + 1)" unfolding two_powi_Suc using x y by linarith
  then have "bounded (k + 1) (round_to_float64 (x + y))"
    by (rule round_bounded) (use assms(3,4) in simp_all)
  then show ?thesis by (simp add: a b plus_float64_def)
qed

lemma bounded_minus:
  assumes "bounded k a" and "bounded k b" and "- 1023 \<le> k" and "k \<le> 1022"
  shows "bounded (k + 1) (a - b)"
proof -
  from assms(1,2) obtain x y where a: "a = Finite x" and b: "b = Finite y"
    and x: "\<bar>x\<bar> \<le> 2 powi k" and y: "\<bar>y\<bar> \<le> 2 powi k"
    by (cases a; cases b) (auto simp: bounded_def)
  have "\<bar>x - y\<bar> \<le> 2 powi (k + 1)" unfolding two_powi_Suc using x y by linarith
  then have "bounded (k + 1) (round_to_float64 (x - y))"
    by (rule round_bounded) (use assms(3,4) in simp_all)
  then show ?thesis by (simp add: a b minus_float64_def)
qed

lemma bounded_times:
  assumes "bounded j a" and "bounded k b" and "- 1022 \<le> j + k" and "j + k \<le> 1023"
  shows "bounded (j + k) (a * b)"
proof -
  from assms(1,2) obtain x y where a: "a = Finite x" and b: "b = Finite y"
    and x: "\<bar>x\<bar> \<le> 2 powi j" and y: "\<bar>y\<bar> \<le> 2 powi k"
    by (cases a; cases b) (auto simp: bounded_def)
  have "\<bar>x * y\<bar> = \<bar>x\<bar> * \<bar>y\<bar>" by (simp add: abs_mult)
  also have "\<dots> \<le> 2 powi j * 2 powi k" using x y by (intro mult_mono) simp_all
  also have "\<dots> = 2 powi (j + k)" by (simp add: power_int_add)
  finally have "bounded (j + k) (round_to_float64 (x * y))"
    by (rule round_bounded) (use assms(3,4) in simp_all)
  then show ?thesis by (simp add: a b times_float64_def)
qed

lemma bounded_divide:
  assumes "bounded k a" and "1 \<le> \<bar>d\<bar>" and "- 1022 \<le> k" and "k \<le> 1023"
  shows "bounded k (a / Finite d)"
proof -
  from assms(1) obtain x where a: "a = Finite x" and x: "\<bar>x\<bar> \<le> 2 powi k"
    by (cases a) (auto simp: bounded_def)
  have "\<bar>x / d\<bar> = \<bar>x\<bar> / \<bar>d\<bar>" by simp
  also have "\<dots> \<le> \<bar>x\<bar>"
    using assms(2) mult_right_mono [of 1 "\<bar>d\<bar>" "\<bar>x\<bar>"] by (simp add: field_simps)
  finally have "\<bar>x / d\<bar> \<le> 2 powi k" using x by simp
  then have "bounded k (round_to_float64 (x / d))"
    by (rule round_bounded) (use assms(3,4) in simp_all)
  moreover have "d \<noteq> 0" using assms(2) by auto
  ultimately show ?thesis by (simp add: a divide_float64_def)
qed

lemma snapshot_total:
  assumes "bounded kb balance" and "bounded kp pnl" and "bounded km (balance - pnl)"
    and "bounded kt (balance - pnl - lockBalance)"
  shows "\<exists>asset. snapshot balance pnl lockBalance = Inr asset"
  using bounded_Finite [OF assms(1)] bounded_Finite [OF assms(2)] bounded_Finite [OF assms(3)]
    bounded_Finite [OF assms(4)]
  by (auto simp: snapshot_def NewFromFloat_def and_then_def)

lemma f64_1: "f64 1 = Finite 1" by code_simp
lemma f64_half: "f64 (1 / 2) = Finite (1 / 2)" by code_simp
lemma f64_100: "f64 100 = Finite 100" by code_simp
lemma f64_balance: "f64 (268005 / 10) = Finite (53601 / 2)" by code_simp
lemma f64_amount: "f64 (888 / 10) = Finite (6248744482976563 / 70368744177664)" by code_simp
lemma lockBalance_value:
  "Finite 100 * Finite (6248744482976563 / 70368744177664) = Finite 8880" by code_simp


subsection \<open>The producer never panics\<close>

lemma bounded_const: "\<bar>x\<bar> \<le> 2 ^ n \<Longrightarrow> bounded (int n) (Finite x)"
  by (simp add: bounded_def)

lemma unit_interval_bounded: "unit_interval r \<Longrightarrow> bounded 0 r"
  by (cases r) (auto simp: unit_interval_def bounded_def)

lemma tick_finite:
  assumes "unit_interval r"
  shows "\<exists>asset. snapshot (f64 (268005 / 10))
           ((f64 100 * (f64 1 + (r - f64 (1 / 2)) / f64 100) - f64 100) * f64 (888 / 10))
           (f64 100 * f64 (888 / 10)) = Inr asset"
proof -
  let ?amount = "Finite (6248744482976563 / 70368744177664)"
  let ?newPrice = "Finite 100 * (Finite 1 + (r - Finite (1 / 2)) / Finite 100)"
  let ?pnl = "(?newPrice - Finite 100) * ?amount"
  let ?balance = "Finite (53601 / 2)"
  have half: "bounded 0 (Finite (1 / 2))" using bounded_const [of "1 / 2" 0] by simp
  have one: "bounded 1 (Finite 1)" using bounded_const [of 1 1] by simp
  have hundred: "bounded 7 (Finite 100)" using bounded_const [of 100 7] by simp
  have amount: "bounded 7 ?amount"
    using bounded_const [of "6248744482976563 / 70368744177664" 7] by simp
  have balance: "bounded 15 ?balance" using bounded_const [of "53601 / 2" 15] by simp
  have lock: "bounded 14 (Finite 8880)" using bounded_const [of 8880 14] by simp
  have 1: "bounded 1 (r - Finite (1 / 2))"
    using bounded_minus [OF unit_interval_bounded [OF assms] half] by simp
  have 2: "bounded 1 ((r - Finite (1 / 2)) / Finite 100)"
    by (rule bounded_divide [OF 1]) simp_all
  have 3: "bounded 2 (Finite 1 + (r - Finite (1 / 2)) / Finite 100)"
    using bounded_plus [OF one 2] by simp
  have np: "bounded 9 ?newPrice" using bounded_times [OF hundred 3] by simp
  have 5: "bounded 10 (?newPrice - Finite 100)"
    using bounded_minus [OF np bounded_mono [OF hundred, of 9]] by simp
  have pnl: "bounded 17 ?pnl" using bounded_times [OF 5 amount] by simp
  have margin: "bounded 18 (?balance - ?pnl)"
    using bounded_minus [OF bounded_mono [OF balance, of 17] pnl] by simp
  have transfer: "bounded 19 (?balance - ?pnl - Finite 8880)"
    using bounded_minus [OF margin bounded_mono [OF lock, of 18]] by simp
  show ?thesis
    unfolding f64_1 f64_half f64_100 f64_balance f64_amount lockBalance_value
    by (rule snapshot_total [OF balance pnl margin transfer])
qed

lemma loop_total:
  assumes "\<forall>r \<in> set rs. \<exists>asset.
             snapshot balance ((pp * (f64 1 + (r - f64 (1 / 2)) / f64 100) - pp) * amount) lock =
             Inr asset"
  shows "snd (simulatePriceUpdate_loop pp balance amount lock rs) = None \<and>
         list_all2 (\<lambda>r i. it_previousPrice i = pp \<and>
                           it_newPrice i = pp * (f64 1 + (r - f64 (1 / 2)) / f64 100) \<and>
                           it_pnl i = (it_newPrice i - pp) * amount \<and>
                           snapshot balance (it_pnl i) lock = Inr (it_asset i))
           rs (fst (simulatePriceUpdate_loop pp balance amount lock rs))"
  using assms
proof (induction rs)
  case Nil
  then show ?case by simp
next
  case (Cons r rs)
  from Cons.prems obtain asset where
    a: "snapshot balance ((pp * (f64 1 + (r - f64 (1 / 2)) / f64 100) - pp) * amount) lock =
        Inr asset"
    by auto
  from Cons.prems have "\<forall>r \<in> set rs. \<exists>asset.
      snapshot balance ((pp * (f64 1 + (r - f64 (1 / 2)) / f64 100) - pp) * amount) lock =
      Inr asset" by simp
  from Cons.IH [OF this] a show ?case
    by (simp add: Let_def split_beta)
qed

lemma producer_total:
  assumes "list_all unit_interval rs"
  shows "snd (simulatePriceUpdate rs) = None \<and>
         list_all2 (\<lambda>r i. it_previousPrice i = f64 100 \<and>
                           it_newPrice i = f64 100 * (f64 1 + (r - f64 (1 / 2)) / f64 100) \<and>
                           it_pnl i = (it_newPrice i - f64 100) * f64 (888 / 10) \<and>
                           snapshot (f64 (268005 / 10)) (it_pnl i) (f64 100 * f64 (888 / 10)) =
                             Inr (it_asset i))
           rs (fst (simulatePriceUpdate rs))"
  unfolding simulatePriceUpdate_def Let_def
  by (rule loop_total) (use assms tick_finite in \<open>simp add: list_all_iff\<close>)


subsection \<open>Rounding errors\<close>










subsection \<open>The tick with the draw 0.7\<close>

text \<open>
  The draw is the \<^verbatim>\<open>float64\<close> nearest to 0.7, for which \<open>(r - 0.5) / 100\<close> is 0.002 up to
  rounding. The tick is evaluated one operation at a time.
\<close>

lemma draw_value: "f64 (7 / 10) = Finite (3152519739159347 / 4503599627370496)"
  by code_simp

lemma step_offset:
  "Finite (3152519739159347 / 4503599627370496) - Finite (1 / 2) =
   Finite (900719925474099 / 4503599627370496)"
  by code_simp

lemma step_delta:
  "Finite (900719925474099 / 4503599627370496) / Finite 100 =
   Finite (4611686018427387 / 2305843009213693952)"
  by code_simp

lemma step_factor:
  "Finite 1 + Finite (4611686018427387 / 2305843009213693952) =
   Finite (4512606826625237 / 4503599627370496)"
  by code_simp

lemma step_newPrice:
  "Finite 100 * Finite (4512606826625237 / 4503599627370496) =
   Finite (7050948166601933 / 70368744177664)"
  by code_simp

lemma step_move:
  "Finite (7050948166601933 / 70368744177664) - Finite 100 =
   Finite (14073748835533 / 70368744177664)"
  by code_simp

lemma step_pnl:
  "Finite (14073748835533 / 70368744177664) * Finite (6248744482976563 / 70368744177664) =
   Finite (4998995586381321 / 281474976710656)"
  by code_simp

lemma step_margin:
  "Finite (53601 / 2) - Finite (4998995586381321 / 281474976710656) =
   Finite (3680991756712673 / 137438953472)"
  by code_simp

lemma step_transfer:
  "Finite (3680991756712673 / 137438953472) - Finite 8880 =
   Finite (2460533849881313 / 137438953472)"
  by code_simp

lemma claimed_newPrice: "f64 (1002 / 10) = Finite (7050948166601933 / 70368744177664)"
  by code_simp

lemma claimed_pnl: "f64 (1776 / 100) = Finite (4998995586381251 / 281474976710656)"
  by code_simp

lemma claimed_margin: "f64 (2678274 / 100) = Finite (7361983513425347 / 274877906944)"
  by code_simp

lemma claimed_transfer: "f64 (1790274 / 100) = Finite (4921067699762627 / 274877906944)"
  by code_simp

lemma one_tick:
  "simulatePriceUpdate [f64 (7 / 10)] =
     ([\<lparr>it_previousPrice = Finite 100,
        it_newPrice = Finite (7050948166601933 / 70368744177664),
        it_pnl = Finite (4998995586381321 / 281474976710656),
        it_asset = \<lparr>Balance = FromFloat (53601 / 2),
                     Pnl = FromFloat (4998995586381321 / 281474976710656),
                     Margin = FromFloat (3680991756712673 / 137438953472),
                     CanTransfer = FromFloat (2460533849881313 / 137438953472)\<rparr>\<rparr>], None)"
  unfolding simulatePriceUpdate_def Let_def simulatePriceUpdate_loop.simps
    draw_value f64_1 f64_half f64_100 f64_balance f64_amount lockBalance_value
    step_offset step_delta step_factor step_newPrice step_move step_pnl
    snapshot_def step_margin step_transfer
  by (simp add: NewFromFloat_def and_then_def)

subsection \<open>C3: the formulas of the snapshot\<close>





subsection \<open>C6: the baseline price\<close>

text \<open>
  C6. At every tick \<open>k\<close> of every run of the producer, \<^verbatim>\<open>previousPrice\<close> is still its initial
  value 100.0; \<^verbatim>\<open>newPrice\<close> is that value perturbed by the draw of this tick alone, and
  \<^verbatim>\<open>pnl\<close> is computed against that value.
\<close>

theorem baseline_not_carried:
  assumes "list_all unit_interval rs" and "k < length rs"
  shows "length (fst (simulatePriceUpdate rs)) = length rs \<and>
         (let i = fst (simulatePriceUpdate rs) ! k
          in it_previousPrice i = f64 100 \<and>
             it_newPrice i = f64 100 * (f64 1 + (rs ! k - f64 (1 / 2)) / f64 100) \<and>
             it_pnl i = (it_newPrice i - f64 100) * f64 (888 / 10))"
proof -
  note t = producer_total [OF assms(1)]
  have len: "length (fst (simulatePriceUpdate rs)) = length rs"
    by (rule list_all2_lengthD [OF conjunct2 [OF t], symmetric])
  from t assms(2) show ?thesis
    unfolding Let_def using len by (auto dest: list_all2_nthD)
qed

text \<open>Three ticks; the third has the baseline 100.0 and depends on its own draw only.\<close>

theorem baseline_not_carried_witness:
  "list_all unit_interval [Finite (1 / 2), Finite (1 / 4), Finite (1 / 4)] \<and>
   (2::nat) < length [Finite (1 / 2), Finite (1 / 4), Finite (1 / 4)] \<and>
   it_previousPrice (fst (simulatePriceUpdate [Finite (1 / 2), Finite (1 / 4), Finite (1 / 4)]) ! 2) =
     f64 100 \<and>
   it_newPrice (fst (simulatePriceUpdate [Finite (1 / 2), Finite (1 / 4), Finite (1 / 4)]) ! 2) =
     f64 100 * (f64 1 + (Finite (1 / 4) - f64 (1 / 2)) / f64 100)"
proof -
  have h1: "list_all unit_interval [Finite (1 / 2), Finite (1 / 4), Finite (1 / 4)]"
    by (simp add: unit_interval_def)
  have h2: "(2::nat) < length [Finite (1 / 2), Finite (1 / 4), Finite (1 / 4)]" by simp
  show ?thesis
    using h1 h2 baseline_not_carried [OF h1 h2, unfolded Let_def]
    by simp
qed


subsection \<open>C7: one tick with a move of +0.2 percent\<close>

text \<open>
  The new price is the \<^verbatim>\<open>float64\<close> of 100.2, as claimed. The three other values sent are not the
  conversions of 17.76, 26782.74 and 17902.74.
\<close>

theorem end_to_end_counterexample:
  "it_newPrice (hd (fst (simulatePriceUpdate [f64 (7 / 10)]))) = f64 (1002 / 10) \<and>
   NewFromFloat (f64 (1776 / 100)) \<noteq>
     Inr (Pnl (it_asset (hd (fst (simulatePriceUpdate [f64 (7 / 10)]))))) \<and>
   NewFromFloat (f64 (2678274 / 100)) \<noteq>
     Inr (Margin (it_asset (hd (fst (simulatePriceUpdate [f64 (7 / 10)]))))) \<and>
   NewFromFloat (f64 (1790274 / 100)) \<noteq>
     Inr (CanTransfer (it_asset (hd (fst (simulatePriceUpdate [f64 (7 / 10)])))))"
  unfolding one_tick claimed_newPrice claimed_pnl claimed_margin claimed_transfer
  by (simp add: NewFromFloat_def)

text \<open>
  C7, amended. For that tick the new price is the \<^verbatim>\<open>float64\<close> nearest to 100.2 and the balance
  is 26800.5; pnl, margin and transferable are the \<^verbatim>\<open>float64\<close> results of the computation,
  \<open>4998995586381321 / 2 ^ 48\<close>, \<open>3680991756712673 / 2 ^ 37\<close> and \<open>2460533849881313 / 2 ^ 37\<close>
  (printed 17.76000000000025, 26782.739999999998 and 17902.739999999998), within
  \<open>10 ^ - 12\<close>, \<open>4 * 10 ^ - 12\<close> and \<open>4 * 10 ^ - 12\<close> of 17.76, 26782.74 and 17902.74; and a
  connected client is sent exactly this snapshot.
\<close>

theorem end_to_end_float64:
  "(let asset = \<lparr>Balance = FromFloat (53601 / 2),
                   Pnl = FromFloat (4998995586381321 / 281474976710656),
                   Margin = FromFloat (3680991756712673 / 137438953472),
                   CanTransfer = FromFloat (2460533849881313 / 137438953472)\<rparr>
    in simulatePriceUpdate [f64 (7 / 10)] =
         ([\<lparr>it_previousPrice = f64 100, it_newPrice = f64 (1002 / 10),
            it_pnl = Finite (4998995586381321 / 281474976710656), it_asset = asset\<rparr>], None) \<and>
       NewFromFloat (f64 (268005 / 10)) = Inr (Balance asset) \<and>
       \<bar>4998995586381321 / 281474976710656 - 1776 / 100\<bar> < (1 / 10 ^ 12 :: rat) \<and>
       \<bar>3680991756712673 / 137438953472 - 2678274 / 100\<bar> < (4 / 10 ^ 12 :: rat) \<and>
       \<bar>2460533849881313 / 137438953472 - 1790274 / 100\<bar> < (4 / 10 ^ 12 :: rat) \<and>
       payloads (trace (run_uuid [Request True (Some ''u''), Tick asset (\<lambda>c. False)] init)) =
         [asset])"
  unfolding one_tick claimed_newPrice f64_100 f64_balance Let_def
  by (simp add: NewFromFloat_def handleConnections_uuid_def send_def emit_def Lock_def Unlock_def
        and_then_def init_def Let_def)

end
